theory Spec2Isabelle
  imports Complex_Main
begin

section \<open>Numeric values\<close>

text \<open>
  The pipeline of \<^verbatim>\<open>Data/sqlDB/processAndStore.py\<close> works on pandas columns of
  64-bit floats. A value is a finite number, one of the two infinities, or NaN (which
  pandas reads as "missing"). Arithmetic on finite values is exact here: rounding,
  overflow and the sign of zero are outside the model. The special values follow
  IEEE 754.
\<close>

datatype pyfloat = Fin real | PInf | NInf | NaN

type_synonym date = int


text \<open>\<^verbatim>\<open>pd.notna(x)\<close> on a float: everything but NaN, the infinities included.\<close>

fun notna :: "pyfloat \<Rightarrow> bool" where
  "notna NaN = False"
| "notna _ = True"



fun fneg :: "pyfloat \<Rightarrow> pyfloat" where
  "fneg (Fin a) = Fin (- a)"
| "fneg PInf = NInf"
| "fneg NInf = PInf"
| "fneg NaN = NaN"

fun fadd :: "pyfloat \<Rightarrow> pyfloat \<Rightarrow> pyfloat" where
  "fadd NaN _ = NaN"
| "fadd _ NaN = NaN"
| "fadd (Fin a) (Fin b) = Fin (a + b)"
| "fadd PInf NInf = NaN"
| "fadd NInf PInf = NaN"
| "fadd PInf _ = PInf"
| "fadd NInf _ = NInf"
| "fadd (Fin _) PInf = PInf"
| "fadd (Fin _) NInf = NInf"

definition fsub :: "pyfloat \<Rightarrow> pyfloat \<Rightarrow> pyfloat" where
  "fsub x y = fadd x (fneg y)"

text \<open>The sign of a value, for the products and quotients with an infinity.\<close>

fun fsgn :: "pyfloat \<Rightarrow> int" where
  "fsgn (Fin a) = (if a < 0 then - 1 else if a = 0 then 0 else 1)"
| "fsgn PInf = 1"
| "fsgn NInf = - 1"
| "fsgn NaN = 0"

definition finf :: "int \<Rightarrow> pyfloat" where
  "finf s = (if s < 0 then NInf else if s = 0 then NaN else PInf)"

fun fmul :: "pyfloat \<Rightarrow> pyfloat \<Rightarrow> pyfloat" where
  "fmul NaN _ = NaN"
| "fmul _ NaN = NaN"
| "fmul (Fin a) (Fin b) = Fin (a * b)"
| "fmul x y = finf (fsgn x * fsgn y)"

text \<open>
  numpy's float division: a finite value over zero is an infinity of the numerator's
  sign, zero over zero is NaN, and nothing raises.
\<close>

fun fdiv :: "pyfloat \<Rightarrow> pyfloat \<Rightarrow> pyfloat" where
  "fdiv NaN _ = NaN"
| "fdiv _ NaN = NaN"
| "fdiv (Fin a) (Fin b) = (if b = 0 then finf (fsgn (Fin a)) else Fin (a / b))"
| "fdiv (Fin _) _ = Fin 0"
| "fdiv x (Fin b) = finf (fsgn x * (if b < 0 then - 1 else 1))"
| "fdiv _ _ = NaN"

text \<open>\<^verbatim>\<open>np.log\<close>: minus infinity at zero, NaN below zero.\<close>

fun flog :: "pyfloat \<Rightarrow> pyfloat" where
  "flog (Fin a) = (if a < 0 then NaN else if a = 0 then NInf else Fin (ln a))"
| "flog PInf = PInf"
| "flog NInf = NaN"
| "flog NaN = NaN"

section \<open>Column operations of pandas\<close>

text \<open>
  A column is a list, oldest sample first. The window kernels of pandas first turn
  every infinity into NaN, so a window sees a number or nothing.
\<close>

fun prep_value :: "pyfloat \<Rightarrow> real option" where
  "prep_value (Fin a) = Some a"
| "prep_value _ = None"

fun of_opt :: "real option \<Rightarrow> pyfloat" where
  "of_opt None = NaN"
| "of_opt (Some a) = Fin a"

text \<open>
  \<^verbatim>\<open>rolling(n)\<close> with the default \<^verbatim>\<open>min_periods = n\<close>: the window ending at
  position \<open>t\<close> holds the \<open>n\<close> samples \<open>t - n + 1 .. t\<close>; it yields no value while
  fewer than \<open>n\<close> samples exist or when one of them is missing.
\<close>

definition window :: "nat \<Rightarrow> pyfloat list \<Rightarrow> nat \<Rightarrow> real list option" where
  "window n xs t =
     (if t + 1 < n then None
      else let w = map prep_value (take n (drop (t + 1 - n) xs))
           in if None \<in> set w then None else Some (map the w))"

definition mean :: "real list \<Rightarrow> real" where
  "mean w = sum_list w / real (length w)"

text \<open>\<^verbatim>\<open>std()\<close> with the default \<^verbatim>\<open>ddof = 1\<close>: the divisor is the window size less one.\<close>

definition std :: "real list \<Rightarrow> real" where
  "std w = sqrt ((\<Sum>x\<leftarrow>w. (x - mean w)\<^sup>2) / (real (length w) - 1))"

definition rolling_mean :: "nat \<Rightarrow> pyfloat list \<Rightarrow> pyfloat list" where
  "rolling_mean n xs =
     map (\<lambda>t. case window n xs t of None \<Rightarrow> NaN | Some w \<Rightarrow> Fin (mean w)) [0..<length xs]"

definition rolling_std :: "nat \<Rightarrow> pyfloat list \<Rightarrow> pyfloat list" where
  "rolling_std n xs =
     map (\<lambda>t. case window n xs t of None \<Rightarrow> NaN | Some w \<Rightarrow> Fin (std w)) [0..<length xs]"

text \<open>
  \<^verbatim>\<open>ewm(span=s, adjust=False).mean()\<close>, as the kernel of pandas runs it: the state is
  the running average and the weight \<open>old_wt\<close> of the past. A missing sample leaves
  the average and lets the past decay; the first sample present seeds the average.
\<close>

definition alpha :: "nat \<Rightarrow> real" where
  "alpha s = 1 / (1 + (real s - 1) / 2)"

fun ewm_loop :: "real \<Rightarrow> real option \<Rightarrow> real \<Rightarrow> real option list \<Rightarrow> real option list" where
  "ewm_loop a weighted old_wt [] = []"
| "ewm_loop a None old_wt (cur # rest) = cur # ewm_loop a cur old_wt rest"
| "ewm_loop a (Some w) old_wt (None # rest) =
     Some w # ewm_loop a (Some w) (old_wt * (1 - a)) rest"
| "ewm_loop a (Some w) old_wt (Some c # rest) =
     (let wt = old_wt * (1 - a);
          w' = (if w \<noteq> c then (wt * w + a * c) / (wt + a) else w)
      in Some w' # ewm_loop a (Some w') 1 rest)"

definition ewm_mean :: "nat \<Rightarrow> pyfloat list \<Rightarrow> pyfloat list" where
  "ewm_mean s xs =
     (case map prep_value xs of
        [] \<Rightarrow> []
      | x # rest \<Rightarrow> map of_opt (x # ewm_loop (alpha s) x 1 rest))"

text \<open>\<^verbatim>\<open>shift(k)\<close>: every sample moves \<open>k\<close> places later, NaN fills the front.\<close>

definition shift :: "nat \<Rightarrow> pyfloat list \<Rightarrow> pyfloat list" where
  "shift k xs = replicate (min k (length xs)) NaN @ take (length xs - k) xs"

definition fillna :: "real \<Rightarrow> pyfloat list \<Rightarrow> pyfloat list" where
  "fillna v xs = map (\<lambda>x. if notna x then x else Fin v) xs"

text \<open>\<^verbatim>\<open>replace([np.inf, -np.inf], np.nan)\<close>.\<close>

definition replace_inf :: "pyfloat list \<Rightarrow> pyfloat list" where
  "replace_inf xs = map (\<lambda>x. if x = PInf \<or> x = NInf then NaN else x) xs"

text \<open>Forward fill: a missing sample takes the last value present before it.\<close>

fun ffill :: "pyfloat \<Rightarrow> pyfloat list \<Rightarrow> pyfloat list" where
  "ffill prev [] = []"
| "ffill prev (x # xs) = (if notna x then x # ffill x xs else prev # ffill prev xs)"

text \<open>
  \<^verbatim>\<open>pct_change()\<close> with its default \<^verbatim>\<open>fill_method='pad'\<close>: the column is forward
  filled, divided by itself one place earlier, and one is subtracted.
\<close>

definition pct_change :: "pyfloat list \<Rightarrow> pyfloat list" where
  "pct_change xs =
     (let data = ffill NaN xs
      in map (\<lambda>q. fsub q (Fin 1)) (map2 fdiv data (shift 1 data)))"

section \<open>The feature engine\<close>

record 'd bar =
  Open :: pyfloat
  High :: pyfloat
  Low :: pyfloat
  Close :: pyfloat
  Volume :: pyfloat
  date :: 'd

record feature_row = "date bar" +
  Sma_5 :: pyfloat
  Sma_10 :: pyfloat
  Sma_20 :: pyfloat
  Sma_50 :: pyfloat
  Sma_200 :: pyfloat
  Ema_12 :: pyfloat
  Ema_26 :: pyfloat
  Macd :: pyfloat
  Macd_Signal :: pyfloat
  Macd_Hist :: pyfloat
  Bb_Middle :: pyfloat
  Bb_Upper :: pyfloat
  Bb_Lower :: pyfloat
  Returns :: pyfloat
  Log_Returns :: pyfloat
  Volatility_20 :: pyfloat
  Momentum_20 :: pyfloat
  Volume_Sma_20 :: pyfloat
  Volume_Ratio :: pyfloat

text \<open>
  The columns of \<^verbatim>\<open>compute_features\<close>, each a function of the close and volume
  columns, in the order the source computes them.
\<close>

definition sma_col :: "nat \<Rightarrow> date bar list \<Rightarrow> pyfloat list" where
  "sma_col n df = rolling_mean n (map Close df)"

definition ema_col :: "nat \<Rightarrow> date bar list \<Rightarrow> pyfloat list" where
  "ema_col s df = ewm_mean s (map Close df)"

definition macd_col :: "date bar list \<Rightarrow> pyfloat list" where
  "macd_col df = map2 fsub (ema_col 12 df) (ema_col 26 df)"

definition macd_signal_col :: "date bar list \<Rightarrow> pyfloat list" where
  "macd_signal_col df = ewm_mean 9 (macd_col df)"

definition macd_hist_col :: "date bar list \<Rightarrow> pyfloat list" where
  "macd_hist_col df = map2 fsub (macd_col df) (macd_signal_col df)"

definition std20_col :: "date bar list \<Rightarrow> pyfloat list" where
  "std20_col df = rolling_std 20 (map Close df)"

definition bb_upper_col :: "date bar list \<Rightarrow> pyfloat list" where
  "bb_upper_col df = map2 fadd (sma_col 20 df) (map (fmul (Fin 2)) (std20_col df))"

definition bb_lower_col :: "date bar list \<Rightarrow> pyfloat list" where
  "bb_lower_col df = map2 fsub (sma_col 20 df) (map (fmul (Fin 2)) (std20_col df))"

definition returns_col :: "date bar list \<Rightarrow> pyfloat list" where
  "returns_col df = fillna 0 (pct_change (map Close df))"

definition log_returns_col :: "date bar list \<Rightarrow> pyfloat list" where
  "log_returns_col df =
     fillna 0 (replace_inf (map flog (map2 fdiv (map Close df) (shift 1 (map Close df)))))"

definition volatility_20_col :: "date bar list \<Rightarrow> pyfloat list" where
  "volatility_20_col df = rolling_std 20 (log_returns_col df)"

definition momentum_20_col :: "date bar list \<Rightarrow> pyfloat list" where
  "momentum_20_col df = map2 fsub (map Close df) (shift 20 (map Close df))"

definition volume_sma_20_col :: "date bar list \<Rightarrow> pyfloat list" where
  "volume_sma_20_col df = rolling_mean 20 (map Volume df)"

definition volume_ratio_col :: "date bar list \<Rightarrow> pyfloat list" where
  "volume_ratio_col df = map2 fdiv (map Volume df) (volume_sma_20_col df)"

definition feature_at :: "date bar list \<Rightarrow> nat \<Rightarrow> feature_row" where
  "feature_at df i =
     \<lparr> Open = Open (df ! i), High = High (df ! i), Low = Low (df ! i),
       Close = Close (df ! i), Volume = Volume (df ! i), date = date (df ! i),
       Sma_5 = sma_col 5 df ! i, Sma_10 = sma_col 10 df ! i, Sma_20 = sma_col 20 df ! i,
       Sma_50 = sma_col 50 df ! i, Sma_200 = sma_col 200 df ! i,
       Ema_12 = ema_col 12 df ! i, Ema_26 = ema_col 26 df ! i,
       Macd = macd_col df ! i, Macd_Signal = macd_signal_col df ! i,
       Macd_Hist = macd_hist_col df ! i,
       Bb_Middle = sma_col 20 df ! i, Bb_Upper = bb_upper_col df ! i,
       Bb_Lower = bb_lower_col df ! i,
       Returns = returns_col df ! i, Log_Returns = log_returns_col df ! i,
       Volatility_20 = volatility_20_col df ! i, Momentum_20 = momentum_20_col df ! i,
       Volume_Sma_20 = volume_sma_20_col df ! i, Volume_Ratio = volume_ratio_col df ! i \<rparr>"

text \<open>One output row per input row, in the input's order.\<close>

definition compute_features :: "date bar list \<Rightarrow> feature_row list" where
  "compute_features df = map (feature_at df) [0..<length df]"

section \<open>The stage loader\<close>

datatype error = KeyError | ValueError | TypeError | OverflowError | DatabaseError

text \<open>
  A row of \<^verbatim>\<open>dbo.processed_stage\<close> and of \<^verbatim>\<open>dbo.processed_prices\<close>, which have the
  same columns. \<open>None\<close> is SQL's NULL. (\<open>open_col\<close> and \<open>date_col\<close> are the columns
  \<^verbatim>\<open>[open]\<close> and \<^verbatim>\<open>[date]\<close>.)
\<close>

record db_row =
  symbol :: string
  date_col :: date
  open_col :: "pyfloat option"
  high :: "pyfloat option"
  low :: "pyfloat option"
  close :: "pyfloat option"
  volume :: "int option"
  sma_5 :: "pyfloat option"
  sma_10 :: "pyfloat option"
  sma_20 :: "pyfloat option"
  sma_50 :: "pyfloat option"
  sma_200 :: "pyfloat option"
  ema_12 :: "pyfloat option"
  ema_26 :: "pyfloat option"
  macd :: "pyfloat option"
  macd_signal :: "pyfloat option"
  macd_hist :: "pyfloat option"
  bb_middle :: "pyfloat option"
  bb_upper :: "pyfloat option"
  bb_lower :: "pyfloat option"
  returns :: "pyfloat option"
  log_returns :: "pyfloat option"
  volatility_20 :: "pyfloat option"
  momentum_20 :: "pyfloat option"
  volume_sma_20 :: "pyfloat option"
  volume_ratio :: "pyfloat option"

text \<open>\<^verbatim>\<open>float(x) if pd.notna(x) else None\<close>.\<close>

definition to_float :: "pyfloat \<Rightarrow> pyfloat option" where
  "to_float x = (if notna x then Some x else None)"

text \<open>Python's \<^verbatim>\<open>int\<close> of a finite float drops the fraction, towards zero.\<close>

definition py_int :: "real \<Rightarrow> int" where
  "py_int x = (if 0 \<le> x then \<lfloor>x\<rfloor> else \<lceil>x\<rceil>)"

text \<open>
  \<^verbatim>\<open>int(x) if pd.notna(x) else None\<close>: \<^verbatim>\<open>int\<close> of an infinity raises
  \<^verbatim>\<open>OverflowError\<close>.
\<close>

fun to_int :: "pyfloat \<Rightarrow> error + int option" where
  "to_int NaN = Inr None"
| "to_int (Fin x) = Inr (Some (py_int x))"
| "to_int PInf = Inl OverflowError"
| "to_int NInf = Inl OverflowError"

text \<open>The tuple that \<^verbatim>\<open>load_stage\<close> builds for one row of the frame.\<close>

definition stage_row :: "string \<Rightarrow> feature_row \<Rightarrow> error + db_row" where
  "stage_row symb r =
     (case to_int (Volume r) of
        Inl e \<Rightarrow> Inl e
      | Inr v \<Rightarrow> Inr
          \<lparr> symbol = symb, date_col = date r, open_col = to_float (Open r),
            high = to_float (High r), low = to_float (Low r),
            close = to_float (Close r), volume = v, sma_5 = to_float (Sma_5 r),
            sma_10 = to_float (Sma_10 r), sma_20 = to_float (Sma_20 r),
            sma_50 = to_float (Sma_50 r), sma_200 = to_float (Sma_200 r),
            ema_12 = to_float (Ema_12 r), ema_26 = to_float (Ema_26 r),
            macd = to_float (Macd r), macd_signal = to_float (Macd_Signal r),
            macd_hist = to_float (Macd_Hist r), bb_middle = to_float (Bb_Middle r),
            bb_upper = to_float (Bb_Upper r), bb_lower = to_float (Bb_Lower r),
            returns = to_float (Returns r), log_returns = to_float (Log_Returns r),
            volatility_20 = to_float (Volatility_20 r),
            momentum_20 = to_float (Momentum_20 r),
            volume_sma_20 = to_float (Volume_Sma_20 r),
            volume_ratio = to_float (Volume_Ratio r) \<rparr>)"

fun stage_rows :: "string \<Rightarrow> feature_row list \<Rightarrow> error + db_row list" where
  "stage_rows symb [] = Inr []"
| "stage_rows symb (r # rs) =
     (case stage_row symb r of
        Inl e \<Rightarrow> Inl e
      | Inr x \<Rightarrow> (case stage_rows symb rs of Inl e \<Rightarrow> Inl e | Inr xs \<Rightarrow> Inr (x # xs)))"

text \<open>
  The database, as far as the pipeline touches it: the two tables. The staging table
  takes any row; a failure of the driver or the server on insert is outside the model.
\<close>

record db =
  processed_stage :: "db_row list"
  processed_prices :: "db_row list"

text \<open>
  \<^verbatim>\<open>load_stage\<close> builds all the tuples first, so a row that raises leaves the
  staging table as it was; otherwise one bulk insert appends them and commits.
\<close>

definition load_stage :: "db \<Rightarrow> string \<Rightarrow> feature_row list \<Rightarrow> error + db" where
  "load_stage cn symb dfp =
     (case stage_rows symb dfp of
        Inl e \<Rightarrow> Inl e
      | Inr rows \<Rightarrow> Inr (cn\<lparr>processed_stage := processed_stage cn @ rows\<rparr>))"

section \<open>The merge\<close>

definition key :: "db_row \<Rightarrow> string \<times> date" where
  "key r = (symbol r, date_col r)"

text \<open>\<^verbatim>\<open>WHEN MATCHED THEN UPDATE SET\<close>: every column but the key comes from the source row.\<close>

definition update_row :: "db_row \<Rightarrow> db_row \<Rightarrow> db_row" where
  "update_row t s =
     t\<lparr> open_col := open_col s, high := high s, low := low s, close := close s,
        volume := volume s, sma_5 := sma_5 s, sma_10 := sma_10 s, sma_20 := sma_20 s,
        sma_50 := sma_50 s, sma_200 := sma_200 s, ema_12 := ema_12 s,
        ema_26 := ema_26 s, macd := macd s, macd_signal := macd_signal s,
        macd_hist := macd_hist s, bb_middle := bb_middle s, bb_upper := bb_upper s,
        bb_lower := bb_lower s, returns := returns s, log_returns := log_returns s,
        volatility_20 := volatility_20 s, momentum_20 := momentum_20 s,
        volume_sma_20 := volume_sma_20 s, volume_ratio := volume_ratio s \<rparr>"

text \<open>
  Modelled from the spec: the table declarations are not in the source; the spec gives
  \<^verbatim>\<open>processed_prices\<close> the primary key (symbol, date) and the staging table none.
  The \<^verbatim>\<open>MERGE\<close> statement joins the staged rows to the permanent rows on the key. A
  permanent row with a staged partner is overwritten by it, a staged row without
  partner is inserted. Two staged rows with one key make the statement fail (the same
  row updated twice, or the key inserted twice), and the transaction leaves both tables
  as they were. On success the staging table is truncated in the same transaction.
\<close>

definition merge_stage :: "db \<Rightarrow> error + db" where
  "merge_stage cn =
     (let src = processed_stage cn; tgt = processed_prices cn
      in if \<not> distinct (map key src) then Inl DatabaseError
         else Inr \<lparr> processed_stage = [],
                    processed_prices =
                      map (\<lambda>t. case find (\<lambda>s. key s = key t) src of
                                 None \<Rightarrow> t | Some s \<Rightarrow> update_row t s) tgt
                      @ filter (\<lambda>s. key s \<notin> key ` set tgt) src \<rparr>)"

section \<open>Reading a raw file\<close>

text \<open>
  A character is a code point below 256. \<^verbatim>\<open>str.strip\<close> removes the characters that
  \<^verbatim>\<open>str.isspace\<close> accepts: below 256 these are the code points 9 to 13, 28 to 32, 133
  (next line) and 160 (no-break space). The letters of \<^verbatim>\<open>str.title\<close> and
  \<^verbatim>\<open>str.upper\<close> are the ASCII letters; a header or a file name with a letter beyond
  ASCII is outside the model.
\<close>

definition is_space :: "char \<Rightarrow> bool" where
  "is_space c =
     (let n = (of_char c :: nat)
      in (9 \<le> n \<and> n \<le> 13) \<or> (28 \<le> n \<and> n \<le> 32) \<or> n = 133 \<or> n = 160)"

definition is_lower :: "char \<Rightarrow> bool" where
  "is_lower c = (let n = (of_char c :: nat) in 97 \<le> n \<and> n \<le> 122)"

definition is_upper :: "char \<Rightarrow> bool" where
  "is_upper c = (let n = (of_char c :: nat) in 65 \<le> n \<and> n \<le> 90)"

definition to_upper :: "char \<Rightarrow> char" where
  "to_upper c = (if is_lower c then char_of (of_char c - (32 :: nat)) else c)"

definition to_lower :: "char \<Rightarrow> char" where
  "to_lower c = (if is_upper c then char_of (of_char c + (32 :: nat)) else c)"

definition strip :: "string \<Rightarrow> string" where
  "strip s = rev (dropWhile is_space (rev (dropWhile is_space s)))"

text \<open>
  \<^verbatim>\<open>str.title\<close>: a letter that follows a letter is lowered, any other letter is
  raised, everything else stays and ends the word.
\<close>

fun title_loop :: "bool \<Rightarrow> string \<Rightarrow> string" where
  "title_loop previous_is_cased [] = []"
| "title_loop previous_is_cased (c # cs) =
     (if is_lower c then (if previous_is_cased then c else to_upper c) # title_loop True cs
      else if is_upper c then (if previous_is_cased then to_lower c else c) # title_loop True cs
      else c # title_loop False cs)"

definition title :: "string \<Rightarrow> string" where
  "title s = title_loop False s"

text \<open>
  A raw file as \<^verbatim>\<open>pd.read_csv\<close> delivers it: the header as written, and for each line
  what the coercing conversions make of the six expected cells (a date that does not
  parse is \<open>None\<close>, a number that does not parse is NaN).
\<close>

record raw_csv =
  columns :: "string list"
  records :: "date option bar list"

definition dated :: "date option bar \<Rightarrow> date bar option" where
  "dated b =
     (case date b of
        None \<Rightarrow> None
      | Some d \<Rightarrow> Some \<lparr> Open = Open b, High = High b, Low = Low b, Close = Close b,
                         Volume = Volume b, date = d \<rparr>)"

text \<open>
  \<^verbatim>\<open>read_raw_csv\<close>: the header is stripped and title-cased; selecting the six columns
  raises \<^verbatim>\<open>KeyError\<close> when one is absent. A name that occurs twice selects a frame
  where a column is wanted, and the conversion raises. Lines without a date are
  dropped, the rest is sorted by date.
\<close>

definition read_raw_csv :: "raw_csv \<Rightarrow> error + date bar list" where
  "read_raw_csv f =
     (let cols = map (\<lambda>c. title (strip c)) (columns f)
      in if \<not> set [''Open'', ''High'', ''Low'', ''Close'', ''Volume'', ''Date''] \<subseteq> set cols
         then Inl KeyError
         else if count_list cols ''Date'' > 1 then Inl ValueError
         else if \<exists>c \<in> set [''Open'', ''High'', ''Low'', ''Close'', ''Volume'']. count_list cols c > 1
         then Inl TypeError
         else Inr (sort_key date (List.map_filter dated (records f))))"

section \<open>The pipeline driver\<close>

text \<open>\<^verbatim>\<open>Path(p).name\<close> of a POSIX path: what follows the last slash.\<close>

definition path_name :: "string \<Rightarrow> string" where
  "path_name p = rev (takeWhile (\<lambda>c. c \<noteq> CHR ''/'') (rev p))"

text \<open>\<^verbatim>\<open>s.replace(old, "")\<close> for a non-empty \<open>old\<close>: every occurrence, left to right.\<close>

fun remove_all :: "string \<Rightarrow> string \<Rightarrow> string" where
  "remove_all old [] = []"
| "remove_all old (c # cs) =
     (if old \<noteq> [] \<and> take (length old) (c # cs) = old
      then remove_all old (drop (length old) (c # cs))
      else c # remove_all old cs)"

definition symbol_of :: "string \<Rightarrow> string" where
  "symbol_of abfs_path = map to_upper (remove_all ''_raw.csv'' (path_name abfs_path))"

record raw_file =
  path :: string
  content :: raw_csv

text \<open>
  What a run leaves behind: the database, the row counter, and the calls made to
  \<^verbatim>\<open>load_stage\<close> (with the file's number and symbol) and \<^verbatim>\<open>merge_stage\<close>, in order.
\<close>

datatype event = Loaded nat string | Merged

record run =
  conn :: db
  processed_rows :: nat
  calls :: "event list"

text \<open>
  The loop of \<^verbatim>\<open>main\<close> over \<^verbatim>\<open>enumerate(paths, 1)\<close>. Nothing catches an exception:
  the first one ends the run, with the state reached so far. A file that is empty, or
  has no row with a close, is passed over by \<^verbatim>\<open>continue\<close>, which also passes over
  the merge test of that round.
\<close>

fun main_loop :: "run \<Rightarrow> (nat \<times> raw_file) list \<Rightarrow> error \<times> run + run" where
  "main_loop st [] = Inr st"
| "main_loop st ((i, f) # rest) =
     (case read_raw_csv (content f) of
        Inl e \<Rightarrow> Inl (e, st)
      | Inr raw \<Rightarrow>
          if raw = [] then main_loop st rest
          else let proc = filter (\<lambda>r. notna (Close r)) (compute_features raw)
               in if proc = [] then main_loop st rest
                  else (case load_stage (conn st) (symbol_of (path f)) proc of
                          Inl e \<Rightarrow> Inl (e, st)
                        | Inr cn1 \<Rightarrow>
                            let st1 = \<lparr> conn = cn1,
                                        processed_rows = processed_rows st + length proc,
                                        calls = calls st @ [Loaded i (symbol_of (path f))] \<rparr>
                            in if i mod 40 = 0
                               then (case merge_stage cn1 of
                                       Inl e \<Rightarrow> Inl (e, st1)
                                     | Inr cn2 \<Rightarrow>
                                         main_loop (st1\<lparr>conn := cn2,
                                                         calls := calls st1 @ [Merged]\<rparr>) rest)
                               else main_loop st1 rest))"

definition main :: "db \<Rightarrow> raw_file list \<Rightarrow> error \<times> run + run" where
  "main cn paths =
     (case main_loop \<lparr> conn = cn, processed_rows = 0, calls = [] \<rparr> (enumerate 1 paths) of
        Inl x \<Rightarrow> Inl x
      | Inr st \<Rightarrow>
          (case merge_stage (conn st) of
             Inl e \<Rightarrow> Inl (e, st)
           | Inr cn' \<Rightarrow> Inr (st\<lparr>conn := cn', calls := calls st @ [Merged]\<rparr>)))"

section \<open>The properties, as the specification words them\<close>

text \<open>
  The cast of one frame row \<open>r\<close> into one staged row \<open>x\<close>: a field is null exactly
  when it is NaN, and otherwise is kept as it is, the volume cut to an integer. No
  staged row is the cast of a row with an infinite volume.
\<close>

definition null_cast :: "feature_row \<Rightarrow> db_row \<Rightarrow> bool" where
  "null_cast r x \<longleftrightarrow>
     open_col x = (if Open r = NaN then None else Some (Open r)) \<and>
     high x = (if High r = NaN then None else Some (High r)) \<and>
     low x = (if Low r = NaN then None else Some (Low r)) \<and>
     close x = (if Close r = NaN then None else Some (Close r)) \<and>
     (case Volume r of
        Fin v \<Rightarrow> volume x = Some (py_int v)
      | NaN \<Rightarrow> volume x = None
      | PInf \<Rightarrow> False
      | NInf \<Rightarrow> False) \<and>
     sma_5 x = (if Sma_5 r = NaN then None else Some (Sma_5 r)) \<and>
     sma_10 x = (if Sma_10 r = NaN then None else Some (Sma_10 r)) \<and>
     sma_20 x = (if Sma_20 r = NaN then None else Some (Sma_20 r)) \<and>
     sma_50 x = (if Sma_50 r = NaN then None else Some (Sma_50 r)) \<and>
     sma_200 x = (if Sma_200 r = NaN then None else Some (Sma_200 r)) \<and>
     ema_12 x = (if Ema_12 r = NaN then None else Some (Ema_12 r)) \<and>
     ema_26 x = (if Ema_26 r = NaN then None else Some (Ema_26 r)) \<and>
     macd x = (if Macd r = NaN then None else Some (Macd r)) \<and>
     macd_signal x = (if Macd_Signal r = NaN then None else Some (Macd_Signal r)) \<and>
     macd_hist x = (if Macd_Hist r = NaN then None else Some (Macd_Hist r)) \<and>
     bb_middle x = (if Bb_Middle r = NaN then None else Some (Bb_Middle r)) \<and>
     bb_upper x = (if Bb_Upper r = NaN then None else Some (Bb_Upper r)) \<and>
     bb_lower x = (if Bb_Lower r = NaN then None else Some (Bb_Lower r)) \<and>
     returns x = (if Returns r = NaN then None else Some (Returns r)) \<and>
     log_returns x = (if Log_Returns r = NaN then None else Some (Log_Returns r)) \<and>
     volatility_20 x = (if Volatility_20 r = NaN then None else Some (Volatility_20 r)) \<and>
     momentum_20 x = (if Momentum_20 r = NaN then None else Some (Momentum_20 r)) \<and>
     volume_sma_20 x = (if Volume_Sma_20 r = NaN then None else Some (Volume_Sma_20 r)) \<and>
     volume_ratio x = (if Volume_Ratio r = NaN then None else Some (Volume_Ratio r))"





text \<open>
  What one file contributes: the rows that \<^verbatim>\<open>main\<close> hands to \<^verbatim>\<open>load_stage\<close>, or the
  exception of the read. A file with no such row is skipped.
\<close>

definition proc_of :: "raw_file \<Rightarrow> error + feature_row list" where
  "proc_of f =
     (case read_raw_csv (content f) of
        Inl e \<Rightarrow> Inl e
      | Inr raw \<Rightarrow> Inr (filter (\<lambda>r. notna (Close r)) (compute_features raw)))"

text \<open>The keys of the rows that a file contributes to the staging table.\<close>

definition keys_of :: "raw_file \<Rightarrow> (string \<times> date) list" where
  "keys_of f =
     (case proc_of f of
        Inl e \<Rightarrow> []
      | Inr proc \<Rightarrow> map (\<lambda>r. (symbol_of (path f), date r)) proc)"

text \<open>
  The calls of a run that completes its loop: a file that is not skipped is loaded, and
  a merge follows at once when the file's number among all listed files is a multiple
  of 40.
\<close>

fun expected_calls :: "(nat \<times> raw_file) list \<Rightarrow> event list" where
  "expected_calls [] = []"
| "expected_calls ((i, f) # rest) =
     (if proc_of f = Inr [] then expected_calls rest
      else Loaded i (symbol_of (path f))
             # (if i mod 40 = 0 then Merged # expected_calls rest else expected_calls rest))"

text \<open>
  The number of files loaded before the first merge, between each two consecutive
  merges, and after the last one; \<open>c\<close> counts the loads since the last merge.
\<close>

fun chunk_sizes :: "nat \<Rightarrow> event list \<Rightarrow> nat list" where
  "chunk_sizes c [] = [c]"
| "chunk_sizes c (Loaded i s # es) = chunk_sizes (Suc c) es"
| "chunk_sizes c (Merged # es) = c # chunk_sizes 0 es"

section \<open>Sample data\<close>

text \<open>
  The one-row frame of \<^verbatim>\<open>make_proc_df\<close> in \<^verbatim>\<open>tests/test_process_and_downloader.py\<close>
  (the date is the ordinal of 2020-01-01), and the tuple the loader makes of it for the
  symbol \<^verbatim>\<open>TEST.AX\<close>.
\<close>

definition proc_row :: feature_row where
  "proc_row =
     \<lparr> Open = Fin 1, High = Fin (11 / 10), Low = Fin (9 / 10), Close = Fin (21 / 20),
       Volume = Fin 100, date = 737425, Sma_5 = Fin 0, Sma_10 = Fin 0, Sma_20 = Fin 0,
       Sma_50 = Fin 0, Sma_200 = Fin 0, Ema_12 = Fin 0, Ema_26 = Fin 0, Macd = Fin 0,
       Macd_Signal = Fin 0, Macd_Hist = Fin 0, Bb_Middle = Fin 0, Bb_Upper = Fin 0,
       Bb_Lower = Fin 0, Returns = Fin 0, Log_Returns = Fin 0, Volatility_20 = Fin 0,
       Momentum_20 = Fin 0, Volume_Sma_20 = Fin 0, Volume_Ratio = Fin 0 \<rparr>"


text \<open>The same row on two consecutive days.\<close>

definition make_proc_df2 :: "feature_row list" where
  "make_proc_df2 = [proc_row, proc_row\<lparr>date := 737426\<rparr>]"

definition test_row :: db_row where
  "test_row =
     \<lparr> symbol = ''TEST.AX'', date_col = 737425, open_col = Some (Fin 1),
       high = Some (Fin (11 / 10)), low = Some (Fin (9 / 10)),
       close = Some (Fin (21 / 20)), volume = Some 100, sma_5 = Some (Fin 0),
       sma_10 = Some (Fin 0), sma_20 = Some (Fin 0), sma_50 = Some (Fin 0),
       sma_200 = Some (Fin 0), ema_12 = Some (Fin 0), ema_26 = Some (Fin 0),
       macd = Some (Fin 0), macd_signal = Some (Fin 0), macd_hist = Some (Fin 0),
       bb_middle = Some (Fin 0), bb_upper = Some (Fin 0), bb_lower = Some (Fin 0),
       returns = Some (Fin 0), log_returns = Some (Fin 0),
       volatility_20 = Some (Fin 0), momentum_20 = Some (Fin 0),
       volume_sma_20 = Some (Fin 0), volume_ratio = Some (Fin 0) \<rparr>"

definition empty_db :: db where
  "empty_db = \<lparr> processed_stage = [], processed_prices = [] \<rparr>"

text \<open>
  Frames in the manner of \<^verbatim>\<open>make_sample_df\<close> in \<^verbatim>\<open>Data/tests/test_stocks.py\<close>: one
  bar a day from 2020-01-01, open, high and low set around the close, and one volume
  throughout.
\<close>

definition sample_bar :: "date \<Rightarrow> real \<Rightarrow> real \<Rightarrow> date bar" where
  "sample_bar d c v =
     \<lparr> Open = Fin (c - 1 / 2), High = Fin (c + 1 / 2), Low = Fin (c - 1), Close = Fin c,
       Volume = Fin v, date = d \<rparr>"

definition make_sample_df :: "real list \<Rightarrow> real \<Rightarrow> date bar list" where
  "make_sample_df closes v =
     map (\<lambda>(i, c). sample_bar (737425 + int i) c v) (enumerate 0 closes)"




text \<open>A raw file holding the given bars under the six expected column names.\<close>

definition sample_csv :: "date bar list \<Rightarrow> raw_csv" where
  "sample_csv bars =
     \<lparr> columns = [''Date'', ''Open'', ''High'', ''Low'', ''Close'', ''Volume''],
       records = map (\<lambda>b. \<lparr> Open = Open b, High = High b, Low = Low b, Close = Close b,
                               Volume = Volume b, date = Some (date b) \<rparr>) bars \<rparr>"

text \<open>A file without a \<^verbatim>\<open>Close\<close> column, and a file with two good bars.\<close>

definition bad_file :: raw_file where
  "bad_file =
     \<lparr> path = ''raw/asxStocks/BAD.AX_raw.csv'',
       content = \<lparr> columns = [''Date'', ''Open'', ''High'', ''Low'', ''Adj Close'', ''Volume''],
                   records = [] \<rparr> \<rparr>"

definition good_file :: raw_file where
  "good_file =
     \<lparr> path = ''raw/asxStocks/bhp.ax_raw.csv'',
       content = sample_csv (make_sample_df [10, 23] 100) \<rparr>"

text \<open>
  The \<open>i\<close>-th file of a listing: one bar under a symbol of \<open>i\<close> letters, but for the
  40th file, which has a header and no line.
\<close>

definition tick_file :: "nat \<Rightarrow> raw_file" where
  "tick_file i =
     \<lparr> path = ''raw/asxStocks/'' @ replicate i (CHR ''A'') @ ''_raw.csv'',
       content = sample_csv (if i = 40 then [] else [sample_bar 737425 10 100]) \<rparr>"

text \<open>The \<open>i\<close>-th file of a listing in which every file has one bar.\<close>

definition full_file :: "nat \<Rightarrow> raw_file" where
  "full_file i =
     \<lparr> path = ''raw/asxStocks/'' @ replicate i (CHR ''A'') @ ''_raw.csv'',
       content = sample_csv [sample_bar 737425 10 100] \<rparr>"

section \<open>Properties of the merge\<close>

lemma merge_stage_empty_stage:
  "processed_stage cn = [] \<Longrightarrow> merge_stage cn = Inr cn"
  by (simp add: merge_stage_def)

lemma merge_stage_truncates:
  "merge_stage cn = Inr cn1 \<Longrightarrow> processed_stage cn1 = []"
  by (auto simp: merge_stage_def Let_def split: if_splits)

lemma merge_stage_succeeds:
  "distinct (map key (processed_stage cn)) \<Longrightarrow> \<exists>cn1. merge_stage cn = Inr cn1"
  by (simp add: merge_stage_def Let_def)

lemma merge_stage_fails:
  "\<not> distinct (map key (processed_stage cn)) \<Longrightarrow> merge_stage cn = Inl DatabaseError"
  by (simp add: merge_stage_def Let_def)

lemma update_row_same_key: "key s = key t \<Longrightarrow> update_row t s = s"
  by (cases s, cases t) (simp add: update_row_def key_def)

lemma merge_into_empty:
  "distinct (map key staged) \<Longrightarrow>
   merge_stage \<lparr> processed_stage = staged, processed_prices = [] \<rparr>
     = Inr \<lparr> processed_stage = [], processed_prices = staged \<rparr>"
  by (simp add: merge_stage_def)

text \<open>
  C6. The merge is idempotent. A merge succeeds whenever the staged keys are distinct;
  every successful merge leaves the staging table empty, and a second merge right
  after it succeeds and returns the very same database, so the permanent table is the
  same after the second run as after the first.
\<close>

theorem merge_stage_idempotent:
  "(distinct (map key (processed_stage cn)) \<longrightarrow> (\<exists>cn1. merge_stage cn = Inr cn1)) \<and>
   (\<forall>cn1. merge_stage cn = Inr cn1 \<longrightarrow>
      processed_stage cn1 = [] \<and> merge_stage cn1 = Inr cn1)"
  using merge_stage_succeeds merge_stage_truncates merge_stage_empty_stage by blast

theorem merge_stage_idempotent_witness:
  "distinct (map key [test_row]) \<and>
   merge_stage \<lparr> processed_stage = [test_row], processed_prices = [] \<rparr>
     = Inr \<lparr> processed_stage = [], processed_prices = [test_row] \<rparr> \<and>
   processed_stage \<lparr> processed_stage = [], processed_prices = [test_row] \<rparr> = [] \<and>
   merge_stage \<lparr> processed_stage = [], processed_prices = [test_row] \<rparr>
     = Inr \<lparr> processed_stage = [], processed_prices = [test_row] \<rparr>"
proof -
  have m: "merge_stage \<lparr> processed_stage = [test_row], processed_prices = [] \<rparr>
             = Inr \<lparr> processed_stage = [], processed_prices = [test_row] \<rparr>"
    by (simp add: merge_stage_def)
  from merge_stage_idempotent [of "\<lparr> processed_stage = [test_row], processed_prices = [] \<rparr>"] m
  have "merge_stage \<lparr> processed_stage = [], processed_prices = [test_row] \<rparr>
          = Inr \<lparr> processed_stage = [], processed_prices = [test_row] \<rparr>"
    by blast
  with m show ?thesis by simp
qed

section \<open>Properties of the stage loader\<close>

lemma notna_iff: "notna x \<longleftrightarrow> x \<noteq> NaN"
  by (cases x) auto

lemma stage_row_Inr_iff:
  "(\<exists>x. stage_row symb r = Inr x) \<longleftrightarrow> Volume r \<noteq> PInf \<and> Volume r \<noteq> NInf"
  by (cases "Volume r") (auto simp: stage_row_def)

lemma stage_row_overflow:
  "Volume r = PInf \<or> Volume r = NInf \<Longrightarrow> stage_row symb r = Inl OverflowError"
  by (auto simp: stage_row_def)

lemma stage_row_error: "stage_row symb r = Inl e \<Longrightarrow> e = OverflowError"
  by (cases "Volume r") (auto simp: stage_row_def)

lemma stage_row_key: "stage_row symb r = Inr x \<Longrightarrow> key x = (symb, date r)"
  by (auto simp: stage_row_def key_def split: sum.splits)

lemma stage_rows_Inr_iff:
  "(\<exists>xs. stage_rows symb rs = Inr xs) \<longleftrightarrow> (\<forall>r\<in>set rs. Volume r \<noteq> PInf \<and> Volume r \<noteq> NInf)"
proof (induction rs)
  case Nil
  show ?case by simp
next
  case (Cons r rs)
  show ?case
  proof (cases "stage_row symb r")
    case (Inl e)
    with stage_row_Inr_iff [of symb r] show ?thesis by auto
  next
    case (Inr x)
    with stage_row_Inr_iff [of symb r] Cons.IH show ?thesis
      by (cases "stage_rows symb rs") auto
  qed
qed

lemma stage_rows_error: "stage_rows symb rs = Inl e \<Longrightarrow> e = OverflowError"
  by (induction rs) (auto split: sum.splits dest: stage_row_error)

lemma stage_rows_all2:
  "stage_rows symb rs = Inr xs \<Longrightarrow> list_all2 (\<lambda>r x. stage_row symb r = Inr x) rs xs"
  by (induction rs arbitrary: xs) (auto split: sum.splits)

lemma stage_rows_nth:
  "stage_rows symb rs = Inr xs \<Longrightarrow> i < length rs \<Longrightarrow> stage_row symb (rs ! i) = Inr (xs ! i)"
  by (drule stage_rows_all2) (simp add: list_all2_conv_all_nth)

lemma stage_rows_length: "stage_rows symb rs = Inr xs \<Longrightarrow> length xs = length rs"
  by (drule stage_rows_all2) (simp add: list_all2_lengthD)

lemma stage_rows_keys:
  "stage_rows symb rs = Inr xs \<Longrightarrow> map key xs = map (\<lambda>r. (symb, date r)) rs"
  by (induction rs arbitrary: xs) (auto split: sum.splits simp: stage_row_key)

lemma load_stage_overflow:
  assumes "\<exists>r\<in>set dfp. Volume r = PInf \<or> Volume r = NInf"
  shows "load_stage cn symb dfp = Inl OverflowError"
proof (cases "stage_rows symb dfp")
  case (Inl e)
  then show ?thesis by (simp add: load_stage_def stage_rows_error)
next
  case (Inr xs)
  with stage_rows_Inr_iff [of symb dfp] assms show ?thesis by auto
qed

lemma load_stage_ok:
  assumes "\<forall>r\<in>set dfp. Volume r \<noteq> PInf \<and> Volume r \<noteq> NInf"
  shows "\<exists>rows. stage_rows symb dfp = Inr rows \<and>
           load_stage cn symb dfp = Inr (cn\<lparr>processed_stage := processed_stage cn @ rows\<rparr>)"
  using assms stage_rows_Inr_iff [of symb dfp] by (auto simp: load_stage_def)

lemma py_int_trunc:
  "\<bar>real_of_int (py_int x)\<bar> \<le> \<bar>x\<bar> \<and> \<bar>x - real_of_int (py_int x)\<bar> < 1"
  unfolding py_int_def by (auto; linarith)

lemma to_float_alt: "to_float x = (if x = NaN then None else Some x)"
  by (cases x) (simp_all add: to_float_def)

lemma to_int_Inr:
  "to_int y = Inr v \<Longrightarrow>
   (case y of Fin a \<Rightarrow> v = Some (py_int a) | NaN \<Rightarrow> v = None | PInf \<Rightarrow> False
    | NInf \<Rightarrow> False)"
  by (cases y) auto

lemma stage_row_fields:
  "stage_row symb r = Inr x \<Longrightarrow>
   open_col x = to_float (Open r) \<and>
   high x = to_float (High r) \<and>
   low x = to_float (Low r) \<and>
   close x = to_float (Close r) \<and>
   to_int (Volume r) = Inr (volume x) \<and>
   sma_5 x = to_float (Sma_5 r) \<and>
   sma_10 x = to_float (Sma_10 r) \<and>
   sma_20 x = to_float (Sma_20 r) \<and>
   sma_50 x = to_float (Sma_50 r) \<and>
   sma_200 x = to_float (Sma_200 r) \<and>
   ema_12 x = to_float (Ema_12 r) \<and>
   ema_26 x = to_float (Ema_26 r) \<and>
   macd x = to_float (Macd r) \<and>
   macd_signal x = to_float (Macd_Signal r) \<and>
   macd_hist x = to_float (Macd_Hist r) \<and>
   bb_middle x = to_float (Bb_Middle r) \<and>
   bb_upper x = to_float (Bb_Upper r) \<and>
   bb_lower x = to_float (Bb_Lower r) \<and>
   returns x = to_float (Returns r) \<and>
   log_returns x = to_float (Log_Returns r) \<and>
   volatility_20 x = to_float (Volatility_20 r) \<and>
   momentum_20 x = to_float (Momentum_20 r) \<and>
   volume_sma_20 x = to_float (Volume_Sma_20 r) \<and>
   volume_ratio x = to_float (Volume_Ratio r)"
  by (auto simp: stage_row_def split: sum.splits)

lemma stage_row_cast:
  assumes "stage_row symb r = Inr x"
  shows "null_cast r x"
  unfolding null_cast_def
  using stage_row_fields [OF assms] to_int_Inr [of "Volume r" "volume x"]
  by (simp add: to_float_alt split del: if_split)

lemma load_stage_cast:
  assumes "\<forall>r\<in>set dfp. Volume r \<noteq> PInf \<and> Volume r \<noteq> NInf"
  shows "\<exists>rows. load_stage cn symb dfp = Inr (cn\<lparr>processed_stage := processed_stage cn @ rows\<rparr>) \<and>
           length rows = length dfp \<and>
           map key rows = map (\<lambda>r. (symb, date r)) dfp \<and>
           (\<forall>i<length dfp. null_cast (dfp ! i) (rows ! i))"
proof -
  from load_stage_ok [OF assms, of symb cn] obtain rows where
    r: "stage_rows symb dfp = Inr rows" and
    l: "load_stage cn symb dfp = Inr (cn\<lparr>processed_stage := processed_stage cn @ rows\<rparr>)"
    by blast
  have "\<forall>i<length dfp. null_cast (dfp ! i) (rows ! i)"
    using stage_rows_nth [OF r] stage_row_cast by blast
  with l stage_rows_length [OF r] stage_rows_keys [OF r] show ?thesis by blast
qed


lemma load_test_rows:
  "load_stage \<lparr> processed_stage = [], processed_prices = [] \<rparr> ''TEST.AX'' make_proc_df2
     = Inr \<lparr> processed_stage = [test_row, test_row\<lparr>date_col := 737426\<rparr>],
             processed_prices = [] \<rparr>"
  by (simp add: load_stage_def stage_row_def make_proc_df2_def proc_row_def test_row_def
      to_float_def py_int_def)

text \<open>
  C5, amended. Round trip. Take a frame whose dates are pairwise distinct, so that under
  the one symbol of the call the keys are. If no volume is infinite, the frame is loaded
  into the empty staging table without error; the merge into the empty permanent table
  then succeeds, empties the staging table and leaves in the permanent table exactly the
  staged rows: one row per key, in the keys of the frame, every column being the cast of
  the frame's value. If a volume is infinite, \<^verbatim>\<open>int\<close> raises \<^verbatim>\<open>OverflowError\<close> in
  \<^verbatim>\<open>load_stage\<close>: nothing is staged and nothing is merged.
\<close>

theorem stage_then_merge_roundtrip:
  assumes "distinct (map date dfp)"
  shows "((\<forall>r\<in>set dfp. Volume r \<noteq> PInf \<and> Volume r \<noteq> NInf) \<longrightarrow>
            (\<exists>rows.
               load_stage \<lparr> processed_stage = [], processed_prices = [] \<rparr> symb dfp
                 = Inr \<lparr> processed_stage = rows, processed_prices = [] \<rparr> \<and>
               merge_stage \<lparr> processed_stage = rows, processed_prices = [] \<rparr>
                 = Inr \<lparr> processed_stage = [], processed_prices = rows \<rparr> \<and>
               map key rows = map (\<lambda>r. (symb, date r)) dfp \<and>
               distinct (map key rows) \<and>
               (\<forall>i<length dfp. null_cast (dfp ! i) (rows ! i)))) \<and>
         ((\<exists>r\<in>set dfp. Volume r = PInf \<or> Volume r = NInf) \<longrightarrow>
            load_stage \<lparr> processed_stage = [], processed_prices = [] \<rparr> symb dfp
              = Inl OverflowError)"
proof -
  have "\<exists>rows.
          load_stage \<lparr> processed_stage = [], processed_prices = [] \<rparr> symb dfp
            = Inr \<lparr> processed_stage = rows, processed_prices = [] \<rparr> \<and>
          merge_stage \<lparr> processed_stage = rows, processed_prices = [] \<rparr>
            = Inr \<lparr> processed_stage = [], processed_prices = rows \<rparr> \<and>
          map key rows = map (\<lambda>r. (symb, date r)) dfp \<and>
          distinct (map key rows) \<and>
          (\<forall>i<length dfp. null_cast (dfp ! i) (rows ! i))"
    if v: "\<forall>r\<in>set dfp. Volume r \<noteq> PInf \<and> Volume r \<noteq> NInf"
  proof -
    from load_stage_cast [OF v, of "\<lparr> processed_stage = [], processed_prices = [] \<rparr>" symb]
    obtain rows where
      l: "load_stage \<lparr> processed_stage = [], processed_prices = [] \<rparr> symb dfp
            = Inr \<lparr> processed_stage = rows, processed_prices = [] \<rparr>" and
      k: "map key rows = map (\<lambda>r. (symb, date r)) dfp" and
      c: "\<forall>i<length dfp. null_cast (dfp ! i) (rows ! i)"
      by auto
    have "distinct (map (\<lambda>r. (symb, date r)) dfp)"
      using assms by (simp add: distinct_conv_nth)
    with k have d: "distinct (map key rows)"
      by simp
    from l merge_into_empty [OF d] k d c show ?thesis by blast
  qed
  then show ?thesis
    using load_stage_overflow [of dfp "\<lparr> processed_stage = [], processed_prices = [] \<rparr>" symb]
    by blast
qed

theorem stage_then_merge_roundtrip_witness:
  "distinct (map date make_proc_df2) \<and>
   load_stage \<lparr> processed_stage = [], processed_prices = [] \<rparr> ''TEST.AX'' make_proc_df2
     = Inr \<lparr> processed_stage = [test_row, test_row\<lparr>date_col := 737426\<rparr>],
             processed_prices = [] \<rparr> \<and>
   merge_stage \<lparr> processed_stage = [test_row, test_row\<lparr>date_col := 737426\<rparr>],
                 processed_prices = [] \<rparr>
     = Inr \<lparr> processed_stage = [],
             processed_prices = [test_row, test_row\<lparr>date_col := 737426\<rparr>] \<rparr> \<and>
   map key [test_row, test_row\<lparr>date_col := 737426\<rparr>]
     = [(''TEST.AX'', 737425), (''TEST.AX'', 737426)]"
proof -
  have d: "distinct (map date make_proc_df2)"
    by (simp add: make_proc_df2_def proc_row_def)
  have v: "\<forall>r\<in>set make_proc_df2. Volume r \<noteq> PInf \<and> Volume r \<noteq> NInf"
    by (simp add: make_proc_df2_def proc_row_def)
  from stage_then_merge_roundtrip [OF d, of "''TEST.AX''"] v load_test_rows
  have "merge_stage \<lparr> processed_stage = [test_row, test_row\<lparr>date_col := 737426\<rparr>],
                      processed_prices = [] \<rparr>
          = Inr \<lparr> processed_stage = [],
                  processed_prices = [test_row, test_row\<lparr>date_col := 737426\<rparr>] \<rparr> \<and>
        map key [test_row, test_row\<lparr>date_col := 737426\<rparr>]
          = map (\<lambda>r. (''TEST.AX'', date r)) make_proc_df2"
    by auto
  with d load_test_rows show ?thesis
    by (simp add: make_proc_df2_def proc_row_def)
qed

theorem stage_then_merge_roundtrip_counterexample:
  "distinct (map date [proc_row, proc_row\<lparr>date := 737426, Volume := NInf\<rparr>]) \<and>
   load_stage \<lparr> processed_stage = [], processed_prices = [] \<rparr> ''TEST.AX''
     [proc_row, proc_row\<lparr>date := 737426, Volume := NInf\<rparr>] = Inl OverflowError"
  by (simp add: load_stage_def stage_row_def proc_row_def py_int_def)

text \<open>
  C10, amended. A volume that is a finite float, whole or not, is staged as the integer
  left when its fraction is dropped, towards zero; a NaN volume, and no other, is staged
  as null. This holds for every frame without an infinite volume, which the loader
  stages in full. A frame with an infinite volume is rejected: \<^verbatim>\<open>int\<close> raises
  \<^verbatim>\<open>OverflowError\<close> and nothing is staged.
\<close>

theorem load_stage_volume_truncates:
  "((\<forall>r\<in>set dfp. Volume r \<noteq> PInf \<and> Volume r \<noteq> NInf) \<longrightarrow>
      (\<exists>rows. load_stage cn symb dfp
                 = Inr (cn\<lparr>processed_stage := processed_stage cn @ rows\<rparr>) \<and>
              length rows = length dfp \<and>
              (\<forall>i<length dfp.
                 (\<forall>x. Volume (dfp ! i) = Fin x \<longrightarrow> volume (rows ! i) = Some (py_int x)) \<and>
                 (volume (rows ! i) = None \<longleftrightarrow> Volume (dfp ! i) = NaN)))) \<and>
   ((\<exists>r\<in>set dfp. Volume r = PInf \<or> Volume r = NInf) \<longrightarrow>
      load_stage cn symb dfp = Inl OverflowError) \<and>
   \<bar>real_of_int (py_int y)\<bar> \<le> \<bar>y\<bar> \<and> \<bar>y - real_of_int (py_int y)\<bar> < 1"
proof -
  have "\<exists>rows. load_stage cn symb dfp
                 = Inr (cn\<lparr>processed_stage := processed_stage cn @ rows\<rparr>) \<and>
              length rows = length dfp \<and>
              (\<forall>i<length dfp.
                 (\<forall>x. Volume (dfp ! i) = Fin x \<longrightarrow> volume (rows ! i) = Some (py_int x)) \<and>
                 (volume (rows ! i) = None \<longleftrightarrow> Volume (dfp ! i) = NaN))"
    if v: "\<forall>r\<in>set dfp. Volume r \<noteq> PInf \<and> Volume r \<noteq> NInf"
  proof -
    from load_stage_cast [OF v, of cn symb] obtain rows where
      l: "load_stage cn symb dfp = Inr (cn\<lparr>processed_stage := processed_stage cn @ rows\<rparr>)" and
      n: "length rows = length dfp" and
      c: "\<forall>i<length dfp. null_cast (dfp ! i) (rows ! i)"
      by blast
    have "(\<forall>x. Volume (dfp ! i) = Fin x \<longrightarrow> volume (rows ! i) = Some (py_int x)) \<and>
          (volume (rows ! i) = None \<longleftrightarrow> Volume (dfp ! i) = NaN)" if i: "i < length dfp" for i
    proof -
      from c i have "case Volume (dfp ! i) of
          Fin v \<Rightarrow> volume (rows ! i) = Some (py_int v)
        | NaN \<Rightarrow> volume (rows ! i) = None
        | PInf \<Rightarrow> False
        | NInf \<Rightarrow> False"
        by (simp add: null_cast_def)
      then show ?thesis
        by (cases "Volume (dfp ! i)") simp_all
    qed
    with l n show ?thesis by blast
  qed
  with load_stage_overflow [of dfp cn symb] py_int_trunc [of y] show ?thesis
    by blast
qed

theorem load_stage_volume_truncates_witness:
  "load_stage empty_db ''TEST.AX'' [proc_row\<lparr>Volume := Fin (109 / 10)\<rparr>]
     = Inr \<lparr> processed_stage = [test_row\<lparr>volume := Some 10\<rparr>], processed_prices = [] \<rparr> \<and>
   py_int (109 / 10) = 10 \<and> py_int (- 109 / 10) = - 10 \<and>
   \<bar>109 / 10 - real_of_int (py_int (109 / 10))\<bar> < 1"
proof -
  let ?dfp = "[proc_row\<lparr>Volume := Fin (109 / 10)\<rparr>]"
  have v: "\<forall>r\<in>set ?dfp. Volume r \<noteq> PInf \<and> Volume r \<noteq> NInf"
    by simp
  have p: "py_int (109 / 10) = 10 \<and> py_int (- 109 / 10) = - 10"
    by (simp add: py_int_def)
  note inst = load_stage_volume_truncates [of ?dfp empty_db "''TEST.AX''" "109 / 10"]
  from inst v obtain rows where
    l: "load_stage empty_db ''TEST.AX'' ?dfp
          = Inr (empty_db\<lparr>processed_stage := processed_stage empty_db @ rows\<rparr>)" and
    n: "length rows = 1" and
    t: "volume (rows ! 0) = Some (py_int (109 / 10))"
    by auto
  have "load_stage empty_db ''TEST.AX'' ?dfp
     = Inr \<lparr> processed_stage = [test_row\<lparr>volume := Some 10\<rparr>], processed_prices = [] \<rparr>"
    by (simp add: load_stage_def stage_row_def proc_row_def test_row_def
      empty_db_def to_float_def py_int_def)
  moreover from inst have "\<bar>109 / 10 - real_of_int (py_int (109 / 10))\<bar> < 1"
    by blast
  ultimately show ?thesis
    using p by blast
qed

theorem load_stage_volume_truncates_counterexample:
  "load_stage empty_db ''TEST.AX'' [proc_row\<lparr>Volume := PInf\<rparr>] = Inl OverflowError"
  by (simp add: load_stage_def stage_row_def)

section \<open>Properties of the feature engine\<close>

lemma length_compute_features [simp]: "length (compute_features df) = length df"
  by (simp add: compute_features_def)


lemma length_rolling_mean [simp]: "length (rolling_mean n xs) = length xs"
  by (simp add: rolling_mean_def)

lemma length_rolling_std [simp]: "length (rolling_std n xs) = length xs"
  by (simp add: rolling_std_def)












lemma length_make_sample_df [simp]: "length (make_sample_df cs v) = length cs"
  by (simp add: make_sample_df_def)






lemma length_ewm_loop [simp]: "length (ewm_loop a w old_wt xs) = length xs"
  by (induction a w old_wt xs rule: ewm_loop.induct) (simp_all add: Let_def)

lemma length_ewm_mean [simp]: "length (ewm_mean s xs) = length xs"
  by (cases xs) (simp_all add: ewm_mean_def)


















lemma length_sma_col [simp]: "length (sma_col n df) = length df"
  by (simp add: sma_col_def)

lemma length_std20_col [simp]: "length (std20_col df) = length df"
  by (simp add: std20_col_def)






















lemma length_ffill [simp]: "length (ffill p xs) = length xs"
  by (induction xs arbitrary: p) simp_all

lemma length_shift [simp]: "length (shift k xs) = length xs"
  by (simp add: shift_def)

lemma length_returns_col [simp]: "length (returns_col df) = length df"
  by (simp add: returns_col_def fillna_def pct_change_def Let_def)






section \<open>Properties of the pipeline driver\<close>

lemmas str_eval = title_def strip_def is_space_def is_lower_def is_upper_def to_upper_def
  to_lower_def char_of_def bit_Suc_0_iff symbol_of_def path_name_def

lemma title_strip_expected:
  "map (\<lambda>c. title (strip c)) [''Date'', ''Open'', ''High'', ''Low'', ''Close'', ''Volume'']
     = [''Date'', ''Open'', ''High'', ''Low'', ''Close'', ''Volume'']"
  by (simp add: str_eval)

lemma compute_features_Nil [simp]: "compute_features [] = []"
  by (simp add: compute_features_def)

lemma main_loop_error:
  "proc_of f = Inl e \<Longrightarrow> main_loop st ((i, f) # rest) = Inl (e, st)"
  by (simp add: proc_of_def split: sum.splits)

lemma main_loop_skip:
  "proc_of f = Inr [] \<Longrightarrow> main_loop st ((i, f) # rest) = main_loop st rest"
  by (auto simp: proc_of_def Let_def split: sum.splits)

lemma main_loop_stage:
  assumes "proc_of f = Inr proc" "proc \<noteq> []"
  shows "main_loop st ((i, f) # rest) =
     (case load_stage (conn st) (symbol_of (path f)) proc of
        Inl e \<Rightarrow> Inl (e, st)
      | Inr cn1 \<Rightarrow>
          if i mod 40 = 0
          then (case merge_stage cn1 of
                  Inl e \<Rightarrow> Inl (e, \<lparr> conn = cn1, processed_rows = processed_rows st + length proc,
                                     calls = calls st @ [Loaded i (symbol_of (path f))] \<rparr>)
                | Inr cn2 \<Rightarrow>
                    main_loop \<lparr> conn = cn2, processed_rows = processed_rows st + length proc,
                                calls = calls st @ [Loaded i (symbol_of (path f)), Merged] \<rparr> rest)
          else main_loop \<lparr> conn = cn1, processed_rows = processed_rows st + length proc,
                           calls = calls st @ [Loaded i (symbol_of (path f))] \<rparr> rest)"
proof -
  from assms obtain raw where r: "read_raw_csv (content f) = Inr raw"
    and p: "proc = filter (\<lambda>r. notna (Close r)) (compute_features raw)"
    by (auto simp: proc_of_def split: sum.splits)
  with assms(2) have "raw \<noteq> []" by auto
  with r p assms(2) show ?thesis
    by (simp add: Let_def split: sum.splits)
qed

declare main_loop.simps(2) [simp del]

lemma main_loop_append:
  "main_loop st (xs @ ys) =
     (case main_loop st xs of Inl x \<Rightarrow> Inl x | Inr st' \<Rightarrow> main_loop st' ys)"
proof (induction xs arbitrary: st)
  case Nil
  show ?case by simp
next
  case (Cons x xs)
  obtain i f where x: "x = (i, f)" by (cases x)
  show ?case
  proof (cases "proc_of f")
    case (Inl e)
    then show ?thesis by (simp add: x main_loop_error)
  next
    case (Inr proc)
    show ?thesis
    proof (cases "proc = []")
      case True
      with Inr Cons.IH show ?thesis by (simp add: x main_loop_skip)
    next
      case False
      show ?thesis
        unfolding x append_Cons main_loop_stage [OF Inr False]
        by (simp add: Cons.IH split: sum.splits)
    qed
  qed
qed

lemma main_loop_calls:
  "main_loop st xs = Inr st' \<Longrightarrow> calls st' = calls st @ expected_calls xs"
proof (induction xs arbitrary: st)
  case Nil
  then show ?case by simp
next
  case (Cons x xs)
  obtain i f where x: "x = (i, f)" by (cases x)
  show ?case
  proof (cases "proc_of f")
    case (Inl e)
    with Cons.prems show ?thesis by (simp add: x main_loop_error)
  next
    case (Inr proc)
    show ?thesis
    proof (cases "proc = []")
      case True
      with Inr Cons show ?thesis by (simp add: x main_loop_skip)
    next
      case False
      from Cons.prems [unfolded x main_loop_stage [OF Inr False]] Inr False
      show ?thesis
        by (auto simp: x split: sum.splits if_splits dest!: Cons.IH)
    qed
  qed
qed

lemma dated_sample: "List.map_filter dated (records (sample_csv bars)) = bars"
  by (induction bars) (simp_all add: sample_csv_def List.map_filter_simps dated_def)

lemma read_sample_csv: "read_raw_csv (sample_csv bars) = Inr (sort_key date bars)"
proof -
  have "columns (sample_csv bars) = [''Date'', ''Open'', ''High'', ''Low'', ''Close'', ''Volume'']"
    by (simp add: sample_csv_def)
  then have "map (\<lambda>c. title (strip c)) (columns (sample_csv bars))
      = [''Date'', ''Open'', ''High'', ''Low'', ''Close'', ''Volume'']"
    by (simp only: title_strip_expected)
  then show ?thesis
    unfolding read_raw_csv_def Let_def by (simp add: dated_sample)
qed

lemma mod40_step: "0 < k \<Longrightarrow> k mod 40 \<noteq> 0 \<Longrightarrow> k mod 40 = Suc ((k - 1) mod 40)"
  for k :: nat
  by (cases k) (simp_all add: mod_Suc split: if_splits)

lemma chunk_bound:
  assumes "\<forall>(i, f)\<in>set (enumerate k fs). i mod 40 = 0 \<longrightarrow> proc_of f \<noteq> Inr []"
      and "0 < k" and "c \<le> (k - 1) mod 40"
  shows "\<forall>n\<in>set (chunk_sizes c (expected_calls (enumerate k fs) @ [Merged])). n \<le> 40"
  using assms
proof (induction fs arbitrary: k c)
  case Nil
  have "(k - 1) mod 40 < 40" by simp
  with Nil show ?case by simp
next
  case (Cons f fs)
  have rest: "\<forall>(i, f)\<in>set (enumerate (Suc k) fs). i mod 40 = 0 \<longrightarrow> proc_of f \<noteq> Inr []"
    using Cons.prems(1) by simp
  have lt: "(k - 1) mod 40 < 40" by simp
  show ?case
  proof (cases "k mod 40 = 0")
    case True
    with Cons.prems(1) have "proc_of f \<noteq> Inr []" by simp
    moreover have "\<forall>n\<in>set (chunk_sizes 0 (expected_calls (enumerate (Suc k) fs) @ [Merged])). n \<le> 40"
      using Cons.IH [OF rest, of 0] by simp
    ultimately show ?thesis
      using True Cons.prems(3) lt by simp
  next
    case False
    from mod40_step [OF Cons.prems(2) False] Cons.prems(3)
    have c: "Suc c \<le> (Suc k - 1) mod 40" "c \<le> (Suc k - 1) mod 40" by simp_all
    have "\<forall>n\<in>set (chunk_sizes (Suc c) (expected_calls (enumerate (Suc k) fs) @ [Merged])). n \<le> 40"
      using Cons.IH [OF rest _ c(1)] by simp
    moreover have "\<forall>n\<in>set (chunk_sizes c (expected_calls (enumerate (Suc k) fs) @ [Merged])). n \<le> 40"
      using Cons.IH [OF rest _ c(2)] by simp
    ultimately show ?thesis
      using False by simp
  qed
qed

lemma main_calls:
  assumes "main cn paths = Inr r"
  shows "calls r = expected_calls (enumerate 1 paths) @ [Merged]"
proof -
  from assms obtain st cn' where
    l: "main_loop \<lparr> conn = cn, processed_rows = 0, calls = [] \<rparr> (enumerate 1 paths) = Inr st" and
    r: "r = st\<lparr>conn := cn', calls := calls st @ [Merged]\<rparr>"
    by (auto simp: main_def split: sum.splits)
  from main_loop_calls [OF l] r show ?thesis by simp
qed

lemma main_loop_no_merge:
  assumes "\<forall>(i, f)\<in>set xs. (i mod 40 \<noteq> 0 \<or> proc_of f = Inr []) \<and>
             (\<exists>proc. proc_of f = Inr proc \<and> (\<forall>r\<in>set proc. Volume r \<noteq> PInf \<and> Volume r \<noteq> NInf))"
  shows "\<exists>st'. main_loop st xs = Inr st' \<and>
           map key (processed_stage (conn st'))
             = map key (processed_stage (conn st)) @ concat (map (\<lambda>(i, f). keys_of f) xs)"
  using assms
proof (induction xs arbitrary: st)
  case Nil
  show ?case by simp
next
  case (Cons x xs)
  obtain i f where x: "x = (i, f)" by (cases x)
  from Cons.prems x obtain proc where
    p: "proc_of f = Inr proc" and v: "\<forall>r\<in>set proc. Volume r \<noteq> PInf \<and> Volume r \<noteq> NInf" and
    m: "i mod 40 \<noteq> 0 \<or> proc = []"
    by auto
  have rest: "\<forall>(i, f)\<in>set xs. (i mod 40 \<noteq> 0 \<or> proc_of f = Inr []) \<and>
             (\<exists>proc. proc_of f = Inr proc \<and> (\<forall>r\<in>set proc. Volume r \<noteq> PInf \<and> Volume r \<noteq> NInf))"
    using Cons.prems by simp
  show ?case
  proof (cases "proc = []")
    case True
    with p Cons.IH [OF rest, of st] show ?thesis
      by (simp add: x main_loop_skip keys_of_def)
  next
    case False
    with m have i: "i mod 40 \<noteq> 0" by simp
    from load_stage_ok [OF v, of "symbol_of (path f)" "conn st"] obtain rows where
      r: "stage_rows (symbol_of (path f)) proc = Inr rows" and
      l: "load_stage (conn st) (symbol_of (path f)) proc
            = Inr ((conn st)\<lparr>processed_stage := processed_stage (conn st) @ rows\<rparr>)"
      by blast
    let ?st1 = "\<lparr> conn = (conn st)\<lparr>processed_stage := processed_stage (conn st) @ rows\<rparr>,
                  processed_rows = processed_rows st + length proc,
                  calls = calls st @ [Loaded i (symbol_of (path f))] \<rparr>"
    have step: "main_loop st ((i, f) # xs) = main_loop ?st1 xs"
      using i l by (simp add: main_loop_stage [OF p False])
    from Cons.IH [OF rest, of ?st1] obtain st' where
      s: "main_loop ?st1 xs = Inr st'" and
      k: "map key (processed_stage (conn st'))
            = map key (processed_stage (conn ?st1)) @ concat (map (\<lambda>(i, f). keys_of f) xs)"
      by blast
    have "keys_of f = map key rows"
      using p stage_rows_keys [OF r] by (simp add: keys_of_def)
    with s k step show ?thesis
      by (simp add: x)
  qed
qed

lemma main_succeeds:
  assumes "\<forall>(i, f)\<in>set (enumerate 1 paths). (i mod 40 \<noteq> 0 \<or> proc_of f = Inr []) \<and>
             (\<exists>proc. proc_of f = Inr proc \<and> (\<forall>r\<in>set proc. Volume r \<noteq> PInf \<and> Volume r \<noteq> NInf))"
      and "distinct (concat (map (\<lambda>(i, f). keys_of f) (enumerate 1 paths)))"
  shows "\<exists>r. main empty_db paths = Inr r"
proof -
  from main_loop_no_merge [OF assms(1), of "\<lparr> conn = empty_db, processed_rows = 0, calls = [] \<rparr>"]
  obtain st where
    s: "main_loop \<lparr> conn = empty_db, processed_rows = 0, calls = [] \<rparr> (enumerate 1 paths) = Inr st" and
    k: "map key (processed_stage (conn st)) = concat (map (\<lambda>(i, f). keys_of f) (enumerate 1 paths))"
    by (auto simp: empty_db_def)
  from assms(2) k merge_stage_succeeds [of "conn st"] obtain cn' where
    "merge_stage (conn st) = Inr cn'" by auto
  with s show ?thesis by (simp add: main_def)
qed

lemma bad_header:
  "\<not> set [''Open'', ''High'', ''Low'', ''Close'', ''Volume'', ''Date'']
       \<subseteq> set (map (\<lambda>c. title (strip c)) (columns (content bad_file)))"
  by (simp add: bad_file_def str_eval)

lemma read_bad_file: "read_raw_csv (content bad_file) = Inl KeyError"
  by (simp only: read_raw_csv_def Let_def bad_header not_False_eq_True if_True)

lemma good_loop:
  "\<exists>st. main_loop \<lparr> conn = empty_db, processed_rows = 0, calls = [] \<rparr> (enumerate 1 [good_file])
           = Inr st \<and>
         calls st = [Loaded 1 ''BHP.AX''] \<and> processed_rows st = 2"
  apply (simp add: main_loop.simps(2) good_file_def read_sample_csv make_sample_df_def
      sample_bar_def empty_db_def)
  apply (simp add: compute_features_def feature_at_def)
  apply (simp add: load_stage_def stage_row_def str_eval Let_def)
  done

lemma good_run: "\<exists>r. main empty_db [good_file] = Inr r"
  apply (simp add: main_def main_loop.simps(2) good_file_def read_sample_csv make_sample_df_def
      sample_bar_def empty_db_def)
  apply (simp add: compute_features_def feature_at_def)
  apply (simp add: load_stage_def stage_row_def merge_stage_def key_def Let_def)
  done

lemma good_calls: "expected_calls (enumerate 1 [good_file]) = [Loaded 1 ''BHP.AX'']"
  apply (simp add: proc_of_def good_file_def read_sample_csv make_sample_df_def sample_bar_def)
  apply (simp add: compute_features_def feature_at_def str_eval)
  done

text \<open>
  C1, amended. A raw file whose expected columns are missing after the header is
  normalised is not skipped: \<^verbatim>\<open>read_raw_csv\<close> raises \<^verbatim>\<open>KeyError\<close>, nothing in
  \<^verbatim>\<open>main\<close> catches it, and the run ends at that file. What the earlier files staged
  and merged stays as it was; no later file is read or staged and the final merge is
  not made.
\<close>

theorem main_aborts_on_missing_columns:
  assumes "\<not> set [''Open'', ''High'', ''Low'', ''Close'', ''Volume'', ''Date'']
               \<subseteq> set (map (\<lambda>c. title (strip c)) (columns (content f)))"
      and "main_loop \<lparr> conn = cn, processed_rows = 0, calls = [] \<rparr> (enumerate 1 pre) = Inr st"
  shows "read_raw_csv (content f) = Inl KeyError \<and>
         main cn (pre @ f # post) = Inl (KeyError, st)"
proof -
  have r: "read_raw_csv (content f) = Inl KeyError"
    by (simp only: read_raw_csv_def Let_def assms(1) not_False_eq_True if_True)
  then have "proc_of f = Inl KeyError"
    by (simp add: proc_of_def)
  then have "main_loop st ((Suc (length pre), f) # enumerate (Suc (Suc (length pre))) post)
               = Inl (KeyError, st)"
    by (rule main_loop_error)
  moreover have "enumerate 1 (pre @ f # post)
      = enumerate 1 pre @ (Suc (length pre), f) # enumerate (Suc (Suc (length pre))) post"
    by (simp add: enumerate_append_eq)
  ultimately have "main_loop \<lparr> conn = cn, processed_rows = 0, calls = [] \<rparr>
      (enumerate 1 (pre @ f # post)) = Inl (KeyError, st)"
    using assms(2) by (simp only: main_loop_append sum.case)
  with r show ?thesis
    by (simp only: main_def sum.case simp_thms)
qed

theorem main_aborts_on_missing_columns_witness:
  "\<exists>st. main empty_db [good_file, bad_file, good_file] = Inl (KeyError, st) \<and>
         calls st = [Loaded 1 ''BHP.AX''] \<and> processed_rows st = 2"
proof -
  from good_loop obtain st where
    l: "main_loop \<lparr> conn = empty_db, processed_rows = 0, calls = [] \<rparr> (enumerate 1 [good_file])
          = Inr st" and
    c: "calls st = [Loaded 1 ''BHP.AX'']" "processed_rows st = 2"
    by blast
  from main_aborts_on_missing_columns [OF bad_header l, of "[good_file]"] c
  show ?thesis by auto
qed

theorem main_aborts_on_missing_columns_counterexample:
  "main empty_db [bad_file, good_file]
     = Inl (KeyError, \<lparr> conn = empty_db, processed_rows = 0, calls = [] \<rparr>)"
proof -
  have "proc_of bad_file = Inl KeyError"
    by (simp add: proc_of_def read_bad_file)
  then show ?thesis
    by (simp add: main_def main_loop_error)
qed

lemma path_name_append: "CHR ''/'' \<notin> set n \<Longrightarrow> path_name (d @ CHR ''/'' # n) = n"
proof -
  assume "CHR ''/'' \<notin> set n"
  then have "takeWhile (\<lambda>c. c \<noteq> CHR ''/'') (rev n @ CHR ''/'' # rev d) = rev n"
    by (subst takeWhile_append2) auto
  then show ?thesis
    by (simp add: path_name_def)
qed

lemma remove_all_suffix:
  "remove_all ''_raw.csv'' (replicate i (CHR ''A'') @ ''_raw.csv'') = replicate i (CHR ''A'')"
  by (induction i) simp_all

lemma symbol_of_tick: "symbol_of (path (tick_file i)) = replicate i (CHR ''A'')"
proof -
  have "path (tick_file i) = ''raw/asxStocks'' @ CHR ''/'' # (replicate i (CHR ''A'') @ ''_raw.csv'')"
    by (simp add: tick_file_def)
  moreover have "CHR ''/'' \<notin> set (replicate i (CHR ''A'') @ ''_raw.csv'')"
    by auto
  ultimately have "path_name (path (tick_file i)) = replicate i (CHR ''A'') @ ''_raw.csv''"
    using path_name_append [of "replicate i (CHR ''A'') @ ''_raw.csv''" "''raw/asxStocks''"]
    by simp
  moreover have "to_upper (CHR ''A'') = CHR ''A''"
    by (simp add: to_upper_def is_lower_def)
  ultimately show ?thesis
    by (simp add: symbol_of_def remove_all_suffix)
qed

lemma proc_of_tick_40: "proc_of (tick_file 40) = Inr []"
  by (simp add: proc_of_def tick_file_def read_sample_csv)

lemma proc_of_tick:
  "i \<noteq> 40 \<Longrightarrow> \<exists>r. proc_of (tick_file i) = Inr [r] \<and> Volume r = Fin 100 \<and> date r = 737425"
  by (simp add: proc_of_def tick_file_def read_sample_csv compute_features_def feature_at_def
      sample_bar_def)

lemma proc_of_tick_Nil: "proc_of (tick_file i) = Inr [] \<longleftrightarrow> i = 40"
proof (cases "i = 40")
  case True
  then show ?thesis by (simp add: proc_of_tick_40)
next
  case False
  from proc_of_tick [OF this] obtain r where "proc_of (tick_file i) = Inr [r]"
    by blast
  with False show ?thesis by simp
qed

lemma keys_of_tick:
  "keys_of (tick_file i) = (if i = 40 then [] else [(replicate i (CHR ''A''), 737425)])"
  using proc_of_tick [of i] proc_of_tick_40
  by (auto simp: keys_of_def symbol_of_tick)

lemma enumerate_map_upt: "enumerate a (map g [a..<b]) = map (\<lambda>i. (i, g i)) [a..<b]"
  by (rule nth_equalityI) (simp_all add: nth_enumerate_eq)

lemma concat_tick_keys:
  "concat (map (\<lambda>i. if i = 40 then [] else [g i]) xs) = map g (filter (\<lambda>i. i \<noteq> (40 :: nat)) xs)"
  by (induction xs) simp_all

lemma tick_run: "\<exists>r. main empty_db (map tick_file [1..<43]) = Inr r"
proof (rule main_succeeds)
  show "\<forall>(i, f)\<in>set (enumerate 1 (map tick_file [1..<43])).
          (i mod 40 \<noteq> 0 \<or> proc_of f = Inr []) \<and>
          (\<exists>proc. proc_of f = Inr proc \<and> (\<forall>r\<in>set proc. Volume r \<noteq> PInf \<and> Volume r \<noteq> NInf))"
  proof -
    have "(i mod 40 \<noteq> 0 \<or> proc_of (tick_file i) = Inr []) \<and>
          (\<exists>proc. proc_of (tick_file i) = Inr proc \<and>
                  (\<forall>r\<in>set proc. Volume r \<noteq> PInf \<and> Volume r \<noteq> NInf))"
      if "1 \<le> i" "i < 43" for i
    proof (cases "i = 40")
      case True
      then show ?thesis by (simp add: proc_of_tick_40)
    next
      case False
      have "i mod 40 \<noteq> 0"
      proof (cases "i < 40")
        case True
        with that show ?thesis by simp
      next
        case False
        with that \<open>i \<noteq> 40\<close> have "i = 41 \<or> i = 42" by linarith
        then show ?thesis by auto
      qed
      with proc_of_tick [OF False] show ?thesis by auto
    qed
    then show ?thesis
      by (auto simp: enumerate_map_upt)
  qed
next
  have "inj (\<lambda>i. (replicate i (CHR ''A''), 737425 :: int))"
    by (rule injI) (metis length_replicate prod.inject)
  then have "distinct (map (\<lambda>i. (replicate i (CHR ''A''), 737425 :: int))
                          (filter (\<lambda>i. i \<noteq> 40) [1..<43]))"
    by (simp add: distinct_map inj_on_def inj_def)
  then show "distinct (concat (map (\<lambda>(i, f). keys_of f) (enumerate 1 (map tick_file [1..<43]))))"
    by (simp add: enumerate_map_upt comp_def keys_of_tick concat_tick_keys)
qed

lemma expected_calls_append:
  "expected_calls (xs @ ys) = expected_calls xs @ expected_calls ys"
  by (induction xs rule: expected_calls.induct) simp_all

lemma chunk_sizes_loads:
  assumes "40 \<notin> set xs" and "\<forall>i\<in>set xs. i mod 40 \<noteq> 0"
  shows "chunk_sizes c (expected_calls (map (\<lambda>i. (i, tick_file i)) xs) @ es)
           = chunk_sizes (c + length xs) es"
  using assms by (induction xs arbitrary: c) (simp_all add: proc_of_tick_Nil)

lemma upt_1_43: "[1..<43] = [1..<40] @ 40 # [41..<43]"
proof -
  have "[1..<43] = [1..<40] @ [40..<43]"
    using upt_add_eq_append [of 1 40 3] by simp
  also have "[40..<43] = 40 # [41..<43]"
    by (simp add: upt_rec)
  finally show ?thesis .
qed

lemma symbol_of_full: "symbol_of (path (full_file i)) = replicate i (CHR ''A'')"
proof -
  have "path (full_file i) = ''raw/asxStocks'' @ CHR ''/'' # (replicate i (CHR ''A'') @ ''_raw.csv'')"
    by (simp add: full_file_def)
  moreover have "CHR ''/'' \<notin> set (replicate i (CHR ''A'') @ ''_raw.csv'')"
    by auto
  ultimately have "path_name (path (full_file i)) = replicate i (CHR ''A'') @ ''_raw.csv''"
    using path_name_append [of "replicate i (CHR ''A'') @ ''_raw.csv''" "''raw/asxStocks''"]
    by simp
  moreover have "to_upper (CHR ''A'') = CHR ''A''"
    by (simp add: to_upper_def is_lower_def)
  ultimately show ?thesis
    by (simp add: symbol_of_def remove_all_suffix)
qed

lemma proc_of_full:
  "\<exists>r. proc_of (full_file i) = Inr [r] \<and> Volume r = Fin 100 \<and> date r = 737425"
  by (simp add: proc_of_def full_file_def read_sample_csv compute_features_def feature_at_def
      sample_bar_def)

lemma proc_of_full_ok:
  "proc_of (full_file i) \<noteq> Inr [] \<and>
   (\<exists>proc. proc_of (full_file i) = Inr proc \<and> (\<forall>r\<in>set proc. Volume r \<noteq> PInf \<and> Volume r \<noteq> NInf))"
  using proc_of_full [of i] by auto

lemma keys_of_full: "keys_of (full_file i) = [(replicate i (CHR ''A''), 737425)]"
  using proc_of_full [of i] by (auto simp: keys_of_def symbol_of_full)

lemma full_no_merge:
  assumes "\<forall>i\<in>set xs. i mod 40 \<noteq> 0"
  shows "\<exists>st'. main_loop st (map (\<lambda>i. (i, full_file i)) xs) = Inr st' \<and>
           map key (processed_stage (conn st'))
             = map key (processed_stage (conn st)) @ map (\<lambda>i. (replicate i (CHR ''A''), 737425)) xs"
proof -
  have "\<forall>(i, f)\<in>set (map (\<lambda>i. (i, full_file i)) xs). (i mod 40 \<noteq> 0 \<or> proc_of f = Inr []) \<and>
          (\<exists>proc. proc_of f = Inr proc \<and> (\<forall>r\<in>set proc. Volume r \<noteq> PInf \<and> Volume r \<noteq> NInf))"
    using assms proc_of_full_ok by auto
  from main_loop_no_merge [OF this, of st] show ?thesis
    by (simp add: comp_def keys_of_full)
qed

lemma full_merge:
  assumes "i mod 40 = 0"
      and "distinct (map key (processed_stage (conn st)) @ [(replicate i (CHR ''A''), 737425)])"
  shows "\<exists>st'. main_loop st [(i, full_file i)] = Inr st' \<and> processed_stage (conn st') = []"
proof -
  from proc_of_full [of i] obtain r where
    p: "proc_of (full_file i) = Inr [r]" and v: "Volume r = Fin 100" and d: "date r = 737425"
    by blast
  have "\<forall>r\<in>set [r]. Volume r \<noteq> PInf \<and> Volume r \<noteq> NInf"
    using v by simp
  from load_stage_ok [OF this, of "symbol_of (path (full_file i))" "conn st"] obtain rows where
    r: "stage_rows (symbol_of (path (full_file i))) [r] = Inr rows" and
    l: "load_stage (conn st) (symbol_of (path (full_file i))) [r]
          = Inr ((conn st)\<lparr>processed_stage := processed_stage (conn st) @ rows\<rparr>)"
    by blast
  let ?cn1 = "(conn st)\<lparr>processed_stage := processed_stage (conn st) @ rows\<rparr>"
  have "map key rows = [(replicate i (CHR ''A''), 737425)]"
    using stage_rows_keys [OF r] d by (simp add: symbol_of_full)
  with assms(2) have "distinct (map key (processed_stage ?cn1))"
    by simp
  from merge_stage_succeeds [OF this] obtain cn2 where m: "merge_stage ?cn1 = Inr cn2"
    by blast
  from merge_stage_truncates [OF m] have "processed_stage cn2 = []" .
  with m l assms(1) show ?thesis
    by (simp add: main_loop_stage [OF p])
qed

lemma inj_ticks: "inj (\<lambda>i. (replicate i (CHR ''A''), 737425 :: int))"
  by (rule injI) (metis length_replicate prod.inject)

lemma distinct_ticks: "distinct xs \<Longrightarrow> distinct (map (\<lambda>i. (replicate i (CHR ''A''), 737425 :: int)) xs)"
  using inj_ticks by (simp add: distinct_map inj_on_def inj_def)

lemma upt_1_42: "[1..<42] = [1..<40] @ [40] @ [41]"
proof -
  have "[1..<42] = [1..<40] @ [40..<42]"
    using upt_add_eq_append [of 1 40 2] by simp
  also have "[40..<42] = [40] @ [41]"
    by (simp add: upt_rec)
  finally show ?thesis .
qed

lemma full_run: "\<exists>r. main empty_db (map full_file [1..<42]) = Inr r"
proof -
  let ?st0 = "\<lparr> conn = empty_db, processed_rows = 0, calls = [] \<rparr>"
  let ?k = "\<lambda>i. (replicate i (CHR ''A''), 737425 :: int)"
  have e: "enumerate 1 (map full_file [1..<42])
             = map (\<lambda>i. (i, full_file i)) [1..<40] @ [(40, full_file 40)]
                 @ map (\<lambda>i. (i, full_file i)) [41]"
    unfolding enumerate_map_upt by (simp only: upt_1_42 map_append list.map)
  have "\<forall>i\<in>set [1..<40]. i mod 40 \<noteq> 0"
    by simp
  from full_no_merge [OF this, of ?st0] obtain st1 where
    s1: "main_loop ?st0 (map (\<lambda>i. (i, full_file i)) [1..<40]) = Inr st1" and
    k1: "map key (processed_stage (conn st1)) = map ?k [1..<40]"
    by (auto simp: empty_db_def)
  have "distinct (map ?k ([1..<40] @ [40]))"
    by (rule distinct_ticks) simp
  then have "distinct (map key (processed_stage (conn st1)) @ [?k 40])"
    by (simp only: k1 map_append list.map)
  from full_merge [OF _ this] obtain st2 where
    s2: "main_loop st1 [(40, full_file 40)] = Inr st2" and
    k2: "processed_stage (conn st2) = []"
    by auto
  have "\<forall>i\<in>set [41 :: nat]. i mod 40 \<noteq> 0"
    by simp
  from full_no_merge [OF this, of st2] obtain st3 where
    s3: "main_loop st2 (map (\<lambda>i. (i, full_file i)) [41]) = Inr st3" and
    k3: "map key (processed_stage (conn st3)) = [?k 41]"
    by (auto simp: k2)
  have "main_loop ?st0 (enumerate 1 (map full_file [1..<42])) = Inr st3"
    by (simp only: e main_loop_append s1 s2 s3 sum.case)
  moreover from k3 merge_stage_succeeds [of "conn st3"] obtain cn' where
    "merge_stage (conn st3) = Inr cn'"
    by auto
  ultimately show ?thesis
    by (simp add: main_def)
qed

lemma expected_calls_full:
  "expected_calls (map (\<lambda>i. (i, full_file i)) xs)
     = concat (map (\<lambda>i. Loaded i (replicate i (CHR ''A''))
                         # (if i mod 40 = 0 then [Merged] else [])) xs)"
  using proc_of_full_ok by (induction xs) (simp_all add: symbol_of_full)

lemma chunk_sizes_full:
  assumes "\<forall>i\<in>set xs. i mod 40 \<noteq> 0"
  shows "chunk_sizes c (expected_calls (map (\<lambda>i. (i, full_file i)) xs) @ es)
           = chunk_sizes (c + length xs) es"
  unfolding expected_calls_full using assms by (induction xs arbitrary: c) simp_all

text \<open>
  C4, amended. In a run that completes, a merge is made right after a file is loaded
  exactly when the number of that file among all listed files, the skipped ones
  counted, is a multiple of 40, and once more after the last file. If no file whose
  number is a multiple of 40 is skipped, at most 40 files are staged between two
  consecutive merges.
\<close>

theorem merge_every_40_files:
  assumes "main cn paths = Inr r"
  shows "calls r = expected_calls (enumerate 1 paths) @ [Merged] \<and>
         ((\<forall>(i, f)\<in>set (enumerate 1 paths). i mod 40 = 0 \<longrightarrow> proc_of f \<noteq> Inr []) \<longrightarrow>
          (\<forall>n\<in>set (chunk_sizes 0 (calls r)). n \<le> 40))"
proof -
  have c: "calls r = expected_calls (enumerate 1 paths) @ [Merged]"
    by (rule main_calls [OF assms])
  have "\<forall>n\<in>set (chunk_sizes 0 (expected_calls (enumerate 1 paths) @ [Merged])). n \<le> 40"
    if "\<forall>(i, f)\<in>set (enumerate 1 paths). i mod 40 = 0 \<longrightarrow> proc_of f \<noteq> Inr []"
    by (rule chunk_bound [OF that]) simp_all
  then show ?thesis unfolding c by (intro conjI impI refl)
qed

theorem merge_every_40_files_witness:
  "\<exists>r. main empty_db (map full_file [1..<42]) = Inr r \<and>
        calls r = map (\<lambda>i. Loaded i (replicate i (CHR ''A''))) [1..<41]
                    @ [Merged, Loaded 41 (replicate 41 (CHR ''A'')), Merged] \<and>
        chunk_sizes 0 (calls r) = [40, 1, 0] \<and>
        (\<forall>n\<in>set (chunk_sizes 0 (calls r)). n \<le> 40)"
proof -
  let ?load = "\<lambda>xs. expected_calls (map (\<lambda>i. (i, full_file i)) xs)"
  from full_run obtain r where r: "main empty_db (map full_file [1..<42]) = Inr r"
    by blast
  have "\<forall>(i, f)\<in>set (enumerate 1 (map full_file [1..<42])). i mod 40 = 0 \<longrightarrow> proc_of f \<noteq> Inr []"
    using proc_of_full_ok by (auto simp: enumerate_map_upt)
  with merge_every_40_files [OF r] have
    c: "calls r = expected_calls (enumerate 1 (map full_file [1..<42])) @ [Merged]" and
    b: "\<forall>n\<in>set (chunk_sizes 0 (calls r)). n \<le> 40"
    by blast+
  have a: "\<forall>i\<in>set [1..<40]. i mod 40 \<noteq> 0"
    by simp
  have e: "expected_calls (enumerate 1 (map full_file [1..<42]))
          = ?load [1..<40] @ ?load [40] @ ?load [41]"
    unfolding enumerate_map_upt by (simp only: upt_1_42 map_append expected_calls_append)
  have l: "?load [1..<40] = map (\<lambda>i. Loaded i (replicate i (CHR ''A''))) [1..<40]"
    unfolding expected_calls_full
    by (rule trans [OF arg_cong [where f = concat]], rule map_cong [OF refl])
       (auto simp: concat_map_singleton)
  have l40: "?load [40] = [Loaded 40 (replicate 40 (CHR ''A'')), Merged]"
    unfolding expected_calls_full by simp
  have l41: "?load [41] = [Loaded 41 (replicate 41 (CHR ''A''))]"
    unfolding expected_calls_full by simp
  have u: "[1..<41] = [1..<40] @ [40]"
    using upt_add_eq_append [of 1 40 1] by (simp add: upt_rec)
  have calls: "calls r = map (\<lambda>i. Loaded i (replicate i (CHR ''A''))) [1..<41]
                    @ [Merged, Loaded 41 (replicate 41 (CHR ''A'')), Merged]"
    unfolding c e l l40 l41 u by simp
  have "chunk_sizes 0 (calls r) = chunk_sizes (0 + length [1..<40]) (?load [40] @ ?load [41] @ [Merged])"
    unfolding c e using chunk_sizes_full [OF a, of 0 "?load [40] @ ?load [41] @ [Merged]"]
    by simp
  also have "\<dots> = [40, 1, 0]"
    unfolding l40 l41 by simp
  finally have "chunk_sizes 0 (calls r) = [40, 1, 0]" .
  with r b calls show ?thesis
    by blast
qed

theorem merge_every_40_files_counterexample:
  "map_sum fst (chunk_sizes 0 \<circ> calls) (main empty_db (map tick_file [1..<43])) = Inr [41, 0]"
proof -
  let ?load = "\<lambda>xs. expected_calls (map (\<lambda>i. (i, tick_file i)) xs)"
  from tick_run obtain r where r: "main empty_db (map tick_file [1..<43]) = Inr r"
    by blast
  have a: "40 \<notin> set [1..<40]" "\<forall>i\<in>set [1..<40]. i mod 40 \<noteq> 0"
    by simp_all
  have b: "40 \<notin> set [41..<43]" "\<forall>i\<in>set [41..<43]. i mod 40 \<noteq> 0"
    by (auto simp: upt_rec)
  have "enumerate 1 (map tick_file [1..<43]) = map (\<lambda>i. (i, tick_file i)) [1..<43]"
    by (rule enumerate_map_upt)
  also have "\<dots> = map (\<lambda>i. (i, tick_file i)) [1..<40] @
                    (40, tick_file 40) # map (\<lambda>i. (i, tick_file i)) [41..<43]"
    by (simp only: upt_1_43 map_append list.map)
  finally have "expected_calls (enumerate 1 (map tick_file [1..<43]))
                  = ?load [1..<40] @ ?load [41..<43]"
    by (simp add: expected_calls_append proc_of_tick_40)
  with main_calls [OF r] have "calls r = ?load [1..<40] @ (?load [41..<43] @ [Merged])"
    by simp
  then have "chunk_sizes 0 (calls r) = chunk_sizes (0 + length [1..<40]) (?load [41..<43] @ [Merged])"
    using chunk_sizes_loads [OF a] by simp
  also have "\<dots> = chunk_sizes (0 + length [1..<40] + length [41..<43]) [Merged]"
    by (rule chunk_sizes_loads [OF b])
  also have "\<dots> = [41, 0]"
    by simp
  finally show ?thesis
    using r by simp
qed

end
